theory Spec2Isabelle
  imports Main
begin

section \<open>Guitar scale visualizer: the note and scale computations\<close>

text \<open>
  The module \<^verbatim>\<open>musician-fretboard-app.py\<close> computes, over a table of twelve note
  names, the note sounding at a fret of a string, the notes of a scale, and whether a
  note of the fretboard belongs to the scale or is its root. Note names are Python
  strings (here \<^typ>\<open>string\<close>), frets and intervals are Python integers (here
  \<^typ>\<open>int\<close>), and every exception the interpreter can raise in these functions is a
  value of \<open>error\<close>.
\<close>

subsection \<open>Python primitives used by the module\<close>

datatype error = ValueError | IndexError | KeyError

text \<open>\<^verbatim>\<open>xs.index(x)\<close>: the position of the first element equal to \<open>x\<close>, or ValueError.\<close>

fun list_index :: "'a list \<Rightarrow> 'a \<Rightarrow> error + int" where
  "list_index [] x = Inl ValueError"
| "list_index (y # ys) x =
     (if y = x then Inr 0
      else (case list_index ys x of Inl e \<Rightarrow> Inl e | Inr i \<Rightarrow> Inr (i + 1)))"

text \<open>
  The subscript \<^verbatim>\<open>xs[i]\<close>. Python accepts \<open>i\<close> from \<open>- len(xs)\<close> up to
  \<open>len(xs) - 1\<close>, reading the negative ones from the end of the list, and raises
  IndexError for any other \<open>i\<close>.
\<close>

definition list_get :: "'a list \<Rightarrow> int \<Rightarrow> error + 'a" where
  "list_get xs i =
     (if 0 \<le> i \<and> i < int (length xs) then Inr (xs ! nat i)
      else if i < 0 \<and> - int (length xs) \<le> i then Inr (xs ! nat (int (length xs) + i))
      else Inl IndexError)"

text \<open>
  \<^verbatim>\<open>s.split(sep)\<close> for a one-character separator: the pieces between the occurrences
  of \<open>sep\<close>, empty pieces included, so that a string without \<open>sep\<close> gives itself alone.
  \<open>cur\<close> holds the piece being read, reversed.
\<close>

fun split_from :: "char \<Rightarrow> string \<Rightarrow> string \<Rightarrow> string list" where
  "split_from sep cur [] = [rev cur]"
| "split_from sep cur (c # cs) =
     (if c = sep then rev cur # split_from sep [] cs else split_from sep (c # cur) cs)"

definition str_split :: "char \<Rightarrow> string \<Rightarrow> string list" where
  "str_split sep s = split_from sep [] s"

text \<open>
  A list comprehension \<^verbatim>\<open>[f(x) for x in xs]\<close> whose body can raise: the elements are
  computed from left to right and the first exception ends the comprehension.
\<close>

fun map_err :: "('a \<Rightarrow> error + 'b) \<Rightarrow> 'a list \<Rightarrow> error + 'b list" where
  "map_err f [] = Inr []"
| "map_err f (x # xs) =
     (case f x of
        Inl e \<Rightarrow> Inl e
      | Inr y \<Rightarrow> (case map_err f xs of Inl e \<Rightarrow> Inl e | Inr ys \<Rightarrow> Inr (y # ys)))"

subsection \<open>The module's tables\<close>

definition NOTES :: "string list" where
  "NOTES = [''C'', ''C#/Db'', ''D'', ''D#/Eb'', ''E'', ''F'', ''F#/Gb'', ''G'', ''G#/Ab'',
            ''A'', ''A#/Bb'', ''B'']"

text \<open>The dictionary \<^verbatim>\<open>MODES\<close>, in insertion order; \<^verbatim>\<open>MODES[mode]\<close> is \<open>map_of MODES mode\<close>.\<close>

definition MODES :: "(string \<times> int list) list" where
  "MODES =
     [(''Major (Ionian)'', [0, 2, 4, 5, 7, 9, 11]),
      (''Dorian'', [0, 2, 3, 5, 7, 9, 10]),
      (''Phrygian'', [0, 1, 3, 5, 7, 8, 10]),
      (''Lydian'', [0, 2, 4, 6, 7, 9, 11]),
      (''Mixolydian'', [0, 2, 4, 5, 7, 9, 10]),
      (''Minor (Aeolian)'', [0, 2, 3, 5, 7, 8, 10]),
      (''Locrian'', [0, 1, 3, 5, 6, 8, 10]),
      (''Pentatonic Major'', [0, 2, 4, 7, 9]),
      (''Pentatonic Minor'', [0, 3, 5, 7, 10]),
      (''Blues'', [0, 3, 5, 6, 7, 10])]"

definition GUITAR_TUNING :: "string list" where
  "GUITAR_TUNING = [''E'', ''B'', ''G'', ''D'', ''A'', ''E'']"

definition NUM_FRETS :: int where
  "NUM_FRETS = 15"

definition display_notes :: "string list" where
  "display_notes = [''C'', ''C#'', ''D'', ''D#'', ''E'', ''F'', ''F#'', ''G'', ''G#'', ''A'',
                    ''A#'', ''B'']"

definition note_mapping :: "(string \<times> string) list" where
  "note_mapping =
     [(''C#'', ''C#/Db''), (''D#'', ''D#/Eb''), (''F#'', ''F#/Gb''), (''G#'', ''G#/Ab''),
      (''A#'', ''A#/Bb'')]"

text \<open>
  The sidebar's root note: the name chosen among \<open>display_notes\<close>, replaced by its entry
  of \<open>note_mapping\<close> when it has one (lines 93 to 96).
\<close>

definition selected_note :: "string \<Rightarrow> string" where
  "selected_note choice =
     (case map_of note_mapping choice of Some internal \<Rightarrow> internal | None \<Rightarrow> choice)"

subsection \<open>The functions\<close>

definition get_note_at_position :: "string \<Rightarrow> int \<Rightarrow> error + string" where
  "get_note_at_position string_note fret =
     (case (if string_note \<in> set NOTES then list_index NOTES string_note
            else (case list_get (str_split CHR ''/'' string_note) 0 of
                    Inl e \<Rightarrow> Inl e
                  | Inr first \<Rightarrow> list_index NOTES first)) of
        Inl e \<Rightarrow> Inl e
      | Inr start_index \<Rightarrow> list_get NOTES ((start_index + fret) mod 12))"

definition get_scale_notes :: "string \<Rightarrow> string \<Rightarrow> error + string list" where
  "get_scale_notes root_note mode =
     (case (if root_note \<in> set NOTES then list_index NOTES root_note
            else (case list_get (str_split CHR ''/'' root_note) 0 of
                    Inl e \<Rightarrow> Inl e
                  | Inr first \<Rightarrow> list_index NOTES first)) of
        Inl e \<Rightarrow> Inl e
      | Inr start_index \<Rightarrow>
          (case map_of MODES mode of
             None \<Rightarrow> Inl KeyError
           | Some intervals \<Rightarrow>
               map_err (\<lambda>interval. list_get NOTES ((start_index + interval) mod 12))
                 intervals))"

text \<open>The \<^verbatim>\<open>or\<close> of line 46 evaluates its second operand only when the first is false.\<close>

definition is_note_in_scale :: "string \<Rightarrow> string list \<Rightarrow> error + bool" where
  "is_note_in_scale note scale_notes =
     (if CHR ''/'' \<in> set note then
        (case list_get (str_split CHR ''/'' note) 0 of
           Inl e \<Rightarrow> Inl e
         | Inr x \<Rightarrow>
             if x \<in> set scale_notes then Inr True
             else (case list_get (str_split CHR ''/'' note) 1 of
                     Inl e \<Rightarrow> Inl e
                   | Inr y \<Rightarrow> Inr (y \<in> set scale_notes)))
      else Inr (note \<in> set scale_notes))"

text \<open>The expression bound to \<^verbatim>\<open>is_root\<close> in \<^verbatim>\<open>display_fretboard\<close> (line 70).\<close>

definition is_root :: "string \<Rightarrow> string \<Rightarrow> bool" where
  "is_root note root_note =
     (note = root_note \<or>
      (CHR ''/'' \<in> set note \<and> root_note \<in> set (str_split CHR ''/'' note)))"

subsection \<open>Facts about the primitives and the tables\<close>

lemma list_index_mem:
  "x \<in> set xs \<Longrightarrow>
     \<exists>i. list_index xs x = Inr i \<and> 0 \<le> i \<and> i < int (length xs) \<and> xs ! nat i = x"
proof (induction xs)
  case Nil
  then show ?case by simp
next
  case (Cons y ys)
  show ?case
  proof (cases "y = x")
    case True
    then show ?thesis by simp
  next
    case False
    with Cons.prems have "x \<in> set ys" by simp
    then obtain i where i: "list_index ys x = Inr i" "0 \<le> i" "i < int (length ys)" "ys ! nat i = x"
      using Cons.IH by blast
    from i(2) have "nat (i + 1) = Suc (nat i)" by simp
    with False i show ?thesis by simp
  qed
qed

lemma list_index_not_mem: "x \<notin> set xs \<Longrightarrow> list_index xs x = Inl ValueError"
  by (induction xs) auto

lemma list_get_in_range: "0 \<le> j \<Longrightarrow> j < int (length xs) \<Longrightarrow> list_get xs j = Inr (xs ! nat j)"
  by (simp add: list_get_def)

lemma map_err_all:
  "(\<And>x. x \<in> set xs \<Longrightarrow> f x = Inr (g x)) \<Longrightarrow> map_err f xs = Inr (map g xs)"
  by (induction xs) simp_all

lemma length_map_err: "map_err f xs = Inr ys \<Longrightarrow> length ys = length xs"
  by (induction xs arbitrary: ys) (auto split: sum.splits)

lemma split_from_no_sep: "sep \<notin> set s \<Longrightarrow> split_from sep cur s = [rev cur @ s]"
  by (induction s arbitrary: cur) auto

lemma split_from_sep:
  "sep \<notin> set x \<Longrightarrow> split_from sep cur (x @ sep # rest) = (rev cur @ x) # split_from sep [] rest"
  by (induction x arbitrary: cur) auto

lemma str_split_no_sep: "sep \<notin> set s \<Longrightarrow> str_split sep s = [s]"
  by (simp add: str_split_def split_from_no_sep)

lemma str_split_pair:
  "sep \<notin> set x \<Longrightarrow> sep \<notin> set y \<Longrightarrow> str_split sep (x @ sep # y) = [x, y]"
  by (simp add: str_split_def split_from_sep split_from_no_sep)

lemma str_split_more:
  "sep \<notin> set x \<Longrightarrow> sep \<notin> set y \<Longrightarrow>
     str_split sep (x @ sep # y @ sep # z) = x # y # str_split sep z"
  by (simp add: str_split_def split_from_sep)

lemma length_NOTES: "length NOTES = 12"
  by (simp add: NOTES_def)

lemma distinct_NOTES: "distinct NOTES"
  by (simp add: NOTES_def)

lemma start_index_canonical:
  assumes "p \<in> set NOTES"
  shows "\<exists>i. list_index NOTES p = Inr i \<and> 0 \<le> i \<and> i < 12 \<and> NOTES ! nat i = p"
  using list_index_mem [OF assms] by (simp add: length_NOTES)

lemma note_at_canonical:
  assumes "p \<in> set NOTES" and "list_index NOTES p = Inr i"
  shows "get_note_at_position p f = Inr (NOTES ! nat ((i + f) mod 12))"
proof -
  have "0 \<le> (i + f) mod 12" "(i + f) mod 12 < int (length NOTES)"
    by (simp_all add: length_NOTES)
  then have "list_get NOTES ((i + f) mod 12) = Inr (NOTES ! nat ((i + f) mod 12))"
    by (rule list_get_in_range)
  with assms show ?thesis by (simp add: get_note_at_position_def)
qed

lemma scale_canonical:
  assumes "r \<in> set NOTES" and "list_index NOTES r = Inr i" and "map_of MODES m = Some ivs"
  shows "get_scale_notes r m = Inr (map (\<lambda>iv. NOTES ! nat ((i + iv) mod 12)) ivs)"
proof -
  have "list_get NOTES ((i + iv) mod 12) = Inr (NOTES ! nat ((i + iv) mod 12))" for iv
    by (rule list_get_in_range) (simp_all add: length_NOTES)
  then have "map_err (\<lambda>iv. list_get NOTES ((i + iv) mod 12)) ivs
               = Inr (map (\<lambda>iv. NOTES ! nat ((i + iv) mod 12)) ivs)"
    by (intro map_err_all)
  with assms show ?thesis by (simp add: get_scale_notes_def)
qed

lemma shift_inj:
  fixes i a b :: int
  assumes "0 \<le> a" "a \<le> 11" "0 \<le> b" "b \<le> 11" "(i + a) mod 12 = (i + b) mod 12"
  shows "a = b"
proof -
  have "(a - b) mod 12 = ((i + a) - (i + b)) mod 12" by simp
  also have "\<dots> = ((i + a) mod 12 - (i + b) mod 12) mod 12" by (simp only: mod_diff_eq)
  also have "\<dots> = 0" using assms(5) by simp
  finally have "(a - b) mod 12 = 0" .
  then have "12 dvd (a - b)" by (simp add: dvd_eq_mod_eq_0)
  then obtain k where k: "a - b = 12 * k" by (auto simp: dvd_def)
  with assms(1-4) have "k = 0" by arith
  with k show ?thesis by simp
qed

lemma MODES_all:
  "list_all (\<lambda>(m, ivs). distinct ivs \<and> list_all (\<lambda>iv. 0 \<le> iv \<and> iv \<le> 11) ivs \<and> hd ivs = 0 \<and> ivs \<noteq> []) MODES"
  by (simp add: MODES_def)

lemma MODES_intervals:
  assumes "map_of MODES m = Some ivs"
  shows "distinct ivs" and "\<forall>iv\<in>set ivs. 0 \<le> iv \<and> iv \<le> 11" and "\<exists>t. ivs = 0 # t"
proof -
  from assms have "(m, ivs) \<in> set MODES" by (rule map_of_SomeD)
  with MODES_all have *: "distinct ivs \<and> list_all (\<lambda>iv. 0 \<le> iv \<and> iv \<le> 11) ivs \<and> hd ivs = 0 \<and> ivs \<noteq> []"
    unfolding list_all_iff by blast
  then show "distinct ivs" by simp
  from * show "\<forall>iv\<in>set ivs. 0 \<le> iv \<and> iv \<le> 11" by (simp add: list_all_iff)
  from * show "\<exists>t. ivs = 0 # t" by (cases ivs) auto
qed

section \<open>The claims\<close>

subsection \<open>Scale membership of an enharmonic pair\<close>

text \<open>
  C1. The specification expects \<^verbatim>\<open>is_note_in_scale\<close> to answer true for the pair
  \<open>C#/Db\<close> in the scale list \<open>[C#/Db, D, E, F, G, A, A#/Bb]\<close>, whichever of the
  spellings \<open>C#\<close> and \<open>Db\<close> the query uses. The function compares the two halves of
  the query with the whole elements of the list, and the list holds the pair under its
  full name: the answer is false for the pair and for each half alone.
\<close>

theorem is_note_in_scale_misses_pair:
  "is_note_in_scale ''C#/Db'' [''C#/Db'', ''D'', ''E'', ''F'', ''G'', ''A'', ''A#/Bb''] = Inr False
   \<and> is_note_in_scale ''C#'' [''C#/Db'', ''D'', ''E'', ''F'', ''G'', ''A'', ''A#/Bb''] = Inr False
   \<and> is_note_in_scale ''Db'' [''C#/Db'', ''D'', ''E'', ''F'', ''G'', ''A'', ''A#/Bb''] = Inr False"
  by (simp add: is_note_in_scale_def str_split_def list_get_def)

text \<open>
  The same happens on the lists \<^verbatim>\<open>get_scale_notes\<close> builds, as \<^verbatim>\<open>display_fretboard\<close>
  passes them: the scale of \<open>A\<close> Dorian holds \<open>F#/Gb\<close>, and the fretboard note
  \<open>F#/Gb\<close> is reported as outside it.
\<close>

lemma dorian_pair_reported_outside:
  "get_scale_notes ''A'' ''Dorian'' = Inr [''A'', ''B'', ''C'', ''D'', ''E'', ''F#/Gb'', ''G'']
   \<and> is_note_in_scale ''F#/Gb'' [''A'', ''B'', ''C'', ''D'', ''E'', ''F#/Gb'', ''G''] = Inr False"
  by (simp add: get_scale_notes_def NOTES_def MODES_def is_note_in_scale_def str_split_def
      list_get_def)

subsection \<open>The note at a fret\<close>





text \<open>
  C4. For each of the twelve names \<open>p\<close> of \<open>NOTES\<close> and each fret \<open>f\<close> from 0 to 14,
  \<^verbatim>\<open>get_note_at_position(p, f)\<close> returns the name at index \<open>(index(p) + f) mod 12\<close>,
  where \<open>index(p)\<close> is the position of \<open>p\<close> in \<open>NOTES\<close>; fret 0 returns \<open>p\<close> itself,
  and string \<open>E\<close> at fret 14 gives \<open>F#/Gb\<close>.
\<close>

theorem note_at_position_canonical:
  assumes "p \<in> set NOTES" and "0 \<le> f" and "f \<le> 14"
  shows "(\<exists>i. list_index NOTES p = Inr i \<and> 0 \<le> i \<and> i < 12 \<and> NOTES ! nat i = p
            \<and> get_note_at_position p f = Inr (NOTES ! nat ((i + f) mod 12)))
         \<and> get_note_at_position p 0 = Inr p
         \<and> get_note_at_position ''E'' 14 = Inr ''F#/Gb''"
proof -
  from start_index_canonical [OF assms(1)] obtain i
    where i: "list_index NOTES p = Inr i" "0 \<le> i" "i < 12" "NOTES ! nat i = p"
    by blast
  have at: "get_note_at_position p g = Inr (NOTES ! nat ((i + g) mod 12))" for g
    using assms(1) i(1) by (rule note_at_canonical)
  from i(2,3) have "(i + 0) mod 12 = i" by simp
  with at [of 0] i(4) have zero: "get_note_at_position p 0 = Inr p" by simp
  have e14: "get_note_at_position ''E'' 14 = Inr ''F#/Gb''"
    by (simp add: get_note_at_position_def NOTES_def list_get_def)
  from i at [of f] zero e14 show ?thesis by blast
qed

theorem note_at_position_canonical_witness:
  "''G'' \<in> set NOTES \<and> (0::int) \<le> 7 \<and> (7::int) \<le> 14
   \<and> list_index NOTES ''G'' = Inr 7
   \<and> get_note_at_position ''G'' 7 = Inr ''D''
   \<and> get_note_at_position ''G'' 0 = Inr ''G''"
proof -
  have mem: "''G'' \<in> set NOTES" by (simp add: NOTES_def)
  have idx: "list_index NOTES ''G'' = Inr 7" by (simp add: NOTES_def)
  have nth: "NOTES ! nat ((7 + 7) mod 12) = ''D''" by (simp add: NOTES_def)
  from note_at_position_canonical [OF mem, of 7] idx nth mem show ?thesis by auto
qed

subsection \<open>The notes of a scale\<close>

text \<open>
  C6. \<^verbatim>\<open>get_scale_notes("C", "Major (Ionian)")\<close> is \<open>[C, D, E, F, G, A, B]\<close> and
  \<^verbatim>\<open>get_scale_notes("A", "Pentatonic Minor")\<close> is \<open>[A, C, D, E, G]\<close>, in that order.
\<close>

theorem scale_notes_examples:
  "get_scale_notes ''C'' ''Major (Ionian)'' = Inr [''C'', ''D'', ''E'', ''F'', ''G'', ''A'', ''B'']
   \<and> get_scale_notes ''A'' ''Pentatonic Minor'' = Inr [''A'', ''C'', ''D'', ''E'', ''G'']"
  by (simp add: get_scale_notes_def NOTES_def MODES_def list_get_def)

text \<open>
  C2, as the specification states it, gives five notes to the pentatonic and blues
  modes. The table \<open>MODES\<close> gives the blues scale six intervals (the minor pentatonic
  and the added flat fifth), and the scale of \<open>A\<close> in that mode has six notes.
\<close>

theorem scale_notes_blues_counterexample:
  "get_scale_notes ''A'' ''Blues'' = Inr [''A'', ''C'', ''D'', ''D#/Eb'', ''E'', ''G'']
   \<and> length [''A'', ''C'', ''D'', ''D#/Eb'', ''E'', ''G''] \<noteq> 5"
  by (simp add: get_scale_notes_def NOTES_def MODES_def list_get_def)

lemma MODES_lengths:
  "list_all (\<lambda>(m, ivs). length ivs =
      (if m = ''Blues'' then 6
       else if m = ''Pentatonic Major'' \<or> m = ''Pentatonic Minor'' then 5
       else 7)) MODES"
  by (simp add: MODES_def)

lemma MODES_length_of:
  assumes "map_of MODES m = Some ivs"
  shows "length ivs =
      (if m = ''Blues'' then 6
       else if m = ''Pentatonic Major'' \<or> m = ''Pentatonic Minor'' then 5
       else 7)"
proof -
  from assms have "(m, ivs) \<in> set MODES" by (rule map_of_SomeD)
  with MODES_lengths show ?thesis unfolding list_all_iff by blast
qed

lemma scale_notes_length:
  assumes "get_scale_notes r m = Inr xs" and "map_of MODES m = Some ivs"
  shows "length xs = length ivs"
  using assms
  by (auto simp add: get_scale_notes_def split: sum.splits if_splits dest: length_map_err)

text \<open>
  C2, amended. For every mode of the catalog, \<^verbatim>\<open>get_scale_notes\<close> returns a list for
  every root note of \<open>NOTES\<close>, and every list it returns, for any root note, has as many
  elements as the mode has intervals: 7 for the seven heptatonic modes, 5 for the two
  pentatonic modes and 6 for the blues mode.
\<close>

theorem scale_notes_length_by_mode:
  assumes "map_of MODES mode = Some intervals"
  shows "(root_note \<in> set NOTES \<longrightarrow> (\<exists>xs. get_scale_notes root_note mode = Inr xs))
         \<and> (\<forall>xs. get_scale_notes root_note mode = Inr xs \<longrightarrow>
               length xs = length intervals
               \<and> length xs =
                   (if mode = ''Blues'' then 6
                    else if mode = ''Pentatonic Major'' \<or> mode = ''Pentatonic Minor'' then 5
                    else 7))"
proof (intro conjI impI allI)
  assume mem: "root_note \<in> set NOTES"
  from start_index_canonical [OF mem] obtain i where "list_index NOTES root_note = Inr i"
    by blast
  from scale_canonical [OF mem this assms]
  show "\<exists>xs. get_scale_notes root_note mode = Inr xs" by blast
next
  fix xs
  assume "get_scale_notes root_note mode = Inr xs"
  then show len: "length xs = length intervals"
    using assms by (rule scale_notes_length)
  with MODES_length_of [OF assms]
  show "length xs =
          (if mode = ''Blues'' then 6
           else if mode = ''Pentatonic Major'' \<or> mode = ''Pentatonic Minor'' then 5
           else 7)"
    by simp
qed

theorem scale_notes_length_by_mode_witness:
  "map_of MODES ''Blues'' = Some [0, 3, 5, 6, 7, 10]
   \<and> ''E'' \<in> set NOTES
   \<and> get_scale_notes ''E'' ''Blues'' = Inr [''E'', ''G'', ''A'', ''A#/Bb'', ''B'', ''D'']
   \<and> length [''E'', ''G'', ''A'', ''A#/Bb'', ''B'', ''D''] = 6"
proof -
  have m: "map_of MODES ''Blues'' = Some [0, 3, 5, 6, 7, 10]" by (simp add: MODES_def)
  have r: "''E'' \<in> set NOTES" by (simp add: NOTES_def)
  have v: "get_scale_notes ''E'' ''Blues'' = Inr [''E'', ''G'', ''A'', ''A#/Bb'', ''B'', ''D'']"
    by (simp add: get_scale_notes_def NOTES_def MODES_def list_get_def)
  from scale_notes_length_by_mode [OF m, of "''E''"] m r v show ?thesis by simp
qed

text \<open>
  C10. For every root note of \<open>NOTES\<close> and every mode of the catalog, the list returned
  by \<^verbatim>\<open>get_scale_notes\<close> starts with the root note and has no element twice.
\<close>

theorem scale_notes_root_first_distinct:
  assumes "root_note \<in> set NOTES" and "map_of MODES mode = Some intervals"
  shows "\<exists>rest. get_scale_notes root_note mode = Inr (root_note # rest)
                \<and> distinct (root_note # rest)"
proof -
  from start_index_canonical [OF assms(1)] obtain i
    where i: "list_index NOTES root_note = Inr i" "0 \<le> i" "i < 12" "NOTES ! nat i = root_note"
    by blast
  let ?name = "\<lambda>iv. NOTES ! nat ((i + iv) mod 12)"
  have scale: "get_scale_notes root_note mode = Inr (map ?name intervals)"
    using assms(1) i(1) assms(2) by (rule scale_canonical)
  from MODES_intervals [OF assms(2)] obtain t
    where d: "distinct intervals" and b: "\<forall>iv\<in>set intervals. 0 \<le> iv \<and> iv \<le> 11"
      and t: "intervals = 0 # t"
    by blast
  from i(2,3) have "(i + 0) mod 12 = i" by simp
  with i(4) have first: "?name 0 = root_note" by simp
  have "inj_on ?name (set intervals)"
  proof (rule inj_onI)
    fix a c
    assume a: "a \<in> set intervals" and c: "c \<in> set intervals" and eq: "?name a = ?name c"
    have "nat ((i + a) mod 12) < length NOTES" "nat ((i + c) mod 12) < length NOTES"
      by (simp_all add: length_NOTES)
    with eq distinct_NOTES have "nat ((i + a) mod 12) = nat ((i + c) mod 12)"
      by (simp add: nth_eq_iff_index_eq)
    then have "(i + a) mod 12 = (i + c) mod 12" by simp
    with a c b show "a = c" by (intro shift_inj [of a c i]) auto
  qed
  with d have "distinct (map ?name intervals)" by (simp add: distinct_map)
  with scale t first show ?thesis by simp
qed

theorem scale_notes_root_first_distinct_witness:
  "''A#/Bb'' \<in> set NOTES \<and> map_of MODES ''Lydian'' = Some [0, 2, 4, 6, 7, 9, 11]
   \<and> (\<exists>rest. get_scale_notes ''A#/Bb'' ''Lydian'' = Inr (''A#/Bb'' # rest)
         \<and> distinct (''A#/Bb'' # rest))"
proof -
  have r: "''A#/Bb'' \<in> set NOTES" by (simp add: NOTES_def)
  have m: "map_of MODES ''Lydian'' = Some [0, 2, 4, 6, 7, 9, 11]" by (simp add: MODES_def)
  from scale_notes_root_first_distinct [OF r m] r m show ?thesis by blast
qed

subsection \<open>Membership in the scale and the root test\<close>

lemma list_get_0: "list_get (x # xs) 0 = Inr x"
  by (simp add: list_get_def)

lemma list_get_1: "list_get (x # y # xs) 1 = Inr y"
  by (simp add: list_get_def)

text \<open>
  C5. \<^verbatim>\<open>is_note_in_scale\<close> follows the stated rule. A note without \<open>/\<close> is in the
  scale exactly when it is an element of \<open>scale_notes\<close>. A pair \<open>X/Y\<close> is in the scale
  exactly when \<open>X\<close> or \<open>Y\<close> is an element of \<open>scale_notes\<close>; the same holds when more
  text follows the pair after a second \<open>/\<close>, so that every string is covered. No call
  raises.
\<close>

theorem is_note_in_scale_rule:
  "(CHR ''/'' \<notin> set note \<longrightarrow>
      is_note_in_scale note scale_notes = Inr (note \<in> set scale_notes))
   \<and> (CHR ''/'' \<notin> set X \<and> CHR ''/'' \<notin> set Y \<longrightarrow>
      is_note_in_scale (X @ ''/'' @ Y) scale_notes
        = Inr (X \<in> set scale_notes \<or> Y \<in> set scale_notes))
   \<and> (CHR ''/'' \<notin> set X \<and> CHR ''/'' \<notin> set Y \<longrightarrow>
      is_note_in_scale (X @ ''/'' @ Y @ ''/'' @ Z) scale_notes
        = Inr (X \<in> set scale_notes \<or> Y \<in> set scale_notes))"
proof (intro conjI impI)
  assume "CHR ''/'' \<notin> set note"
  then show "is_note_in_scale note scale_notes = Inr (note \<in> set scale_notes)"
    by (simp add: is_note_in_scale_def)
next
  assume "CHR ''/'' \<notin> set X \<and> CHR ''/'' \<notin> set Y"
  then have "str_split CHR ''/'' (X @ CHR ''/'' # Y) = [X, Y]"
    by (simp add: str_split_pair)
  then show "is_note_in_scale (X @ ''/'' @ Y) scale_notes
               = Inr (X \<in> set scale_notes \<or> Y \<in> set scale_notes)"
    by (simp add: is_note_in_scale_def list_get_0 list_get_1)
next
  assume "CHR ''/'' \<notin> set X \<and> CHR ''/'' \<notin> set Y"
  then have "str_split CHR ''/'' (X @ CHR ''/'' # Y @ CHR ''/'' # Z)
               = X # Y # str_split CHR ''/'' Z"
    by (simp add: str_split_more)
  then show "is_note_in_scale (X @ ''/'' @ Y @ ''/'' @ Z) scale_notes
               = Inr (X \<in> set scale_notes \<or> Y \<in> set scale_notes)"
    by (simp add: is_note_in_scale_def list_get_0 list_get_1)
qed

theorem is_note_in_scale_rule_witness:
  "CHR ''/'' \<notin> set ''D'' \<and> CHR ''/'' \<notin> set ''C#'' \<and> CHR ''/'' \<notin> set ''Db''
   \<and> is_note_in_scale ''D'' [''C#'', ''D''] = Inr True
   \<and> is_note_in_scale ''C#/Db'' [''Db'', ''D''] = Inr True
   \<and> is_note_in_scale ''C#/Db/D'' [''C#/Db'', ''D''] = Inr False"
  using is_note_in_scale_rule [of "''D''" "[''C#'', ''D'']" "''C#''" "''Db''" "''D''"]
    is_note_in_scale_rule [of "''D''" "[''Db'', ''D'']" "''C#''" "''Db''" "''D''"]
    is_note_in_scale_rule [of "''D''" "[''C#/Db'', ''D'']" "''C#''" "''Db''" "''D''"]
  by simp

text \<open>
  C7. \<^verbatim>\<open>is_root\<close> is true exactly when the note equals the root note, or the note is
  a pair \<open>X/Y\<close> and the root note is \<open>X\<close> or \<open>Y\<close>; \<open>is_root(C#/Db, C#/Db)\<close> is true and
  \<open>is_root(D, C#/Db)\<close> is false.
\<close>

theorem is_root_rule:
  "(CHR ''/'' \<notin> set note \<longrightarrow> is_root note root_note = (note = root_note))
   \<and> (CHR ''/'' \<notin> set X \<and> CHR ''/'' \<notin> set Y \<longrightarrow>
      is_root (X @ ''/'' @ Y) root_note
        = (X @ ''/'' @ Y = root_note \<or> root_note = X \<or> root_note = Y))
   \<and> is_root ''C#/Db'' ''C#/Db''
   \<and> \<not> is_root ''D'' ''C#/Db''"
proof (intro conjI impI)
  assume "CHR ''/'' \<notin> set note"
  then show "is_root note root_note = (note = root_note)"
    by (simp add: is_root_def)
next
  assume "CHR ''/'' \<notin> set X \<and> CHR ''/'' \<notin> set Y"
  then have "str_split CHR ''/'' (X @ CHR ''/'' # Y) = [X, Y]"
    by (simp add: str_split_pair)
  then show "is_root (X @ ''/'' @ Y) root_note
               = (X @ ''/'' @ Y = root_note \<or> root_note = X \<or> root_note = Y)"
    by (simp add: is_root_def)
next
  show "is_root ''C#/Db'' ''C#/Db''"
    by (simp add: is_root_def)
next
  show "\<not> is_root ''D'' ''C#/Db''"
    by (simp add: is_root_def)
qed

theorem is_root_rule_witness:
  "CHR ''/'' \<notin> set ''D'' \<and> CHR ''/'' \<notin> set ''C#'' \<and> CHR ''/'' \<notin> set ''Db''
   \<and> is_root ''D'' ''D'' \<and> \<not> is_root ''D'' ''E''
   \<and> is_root ''C#/Db'' ''Db'' \<and> \<not> is_root ''C#/Db'' ''D''"
  using is_root_rule [of "''D''" "''D''" "''C#''" "''Db''"]
    is_root_rule [of "''D''" "''E''" "''C#''" "''Db''"]
    is_root_rule [of "''D''" "''Db''" "''C#''" "''Db''"]
    is_root_rule [of "''D''" "''D''" "''C#''" "''Db''"]
  by simp

subsection \<open>The inputs the interface can supply\<close>

lemma selected_in_NOTES: "selected_note ` set display_notes \<subseteq> set NOTES"
  by (simp add: selected_note_def display_notes_def note_mapping_def NOTES_def)

lemma tuning_in_NOTES: "set GUITAR_TUNING \<subseteq> set NOTES"
  by (simp add: GUITAR_TUNING_def NOTES_def)

lemma MODES_keys_distinct: "distinct (map fst MODES)"
  by (simp add: MODES_def)

text \<open>
  C8. For every root note the interface can supply (a name of \<open>display_notes\<close> after
  the replacement of \<open>note_mapping\<close>, or a string of \<open>GUITAR_TUNING\<close>), every fret and
  every mode name of the catalog, \<^verbatim>\<open>get_note_at_position\<close> and
  \<^verbatim>\<open>get_scale_notes\<close> return a value: no lookup fails.
\<close>

theorem catalog_inputs_never_fail:
  assumes "root_note \<in> selected_note ` set display_notes \<union> set GUITAR_TUNING"
    and "mode \<in> fst ` set MODES"
  shows "(\<exists>note. get_note_at_position root_note fret = Inr note)
         \<and> (\<exists>notes. get_scale_notes root_note mode = Inr notes)"
proof -
  from assms(1) selected_in_NOTES tuning_in_NOTES have mem: "root_note \<in> set NOTES"
    by blast
  from start_index_canonical [OF mem] obtain i where i: "list_index NOTES root_note = Inr i"
    by blast
  from assms(2) obtain ivs where "(mode, ivs) \<in> set MODES" by auto
  with MODES_keys_distinct have "map_of MODES mode = Some ivs" by simp
  from scale_canonical [OF mem i this] note_at_canonical [OF mem i, of fret]
  show ?thesis by blast
qed

theorem catalog_inputs_never_fail_witness:
  "''F#/Gb'' \<in> selected_note ` set display_notes \<union> set GUITAR_TUNING
   \<and> ''Locrian'' \<in> fst ` set MODES
   \<and> (\<exists>note. get_note_at_position ''F#/Gb'' 14 = Inr note)
   \<and> (\<exists>notes. get_scale_notes ''F#/Gb'' ''Locrian'' = Inr notes)"
proof -
  have "selected_note ''F#'' = ''F#/Gb''"
    by (simp add: selected_note_def note_mapping_def)
  moreover have "''F#'' \<in> set display_notes"
    by (simp add: display_notes_def)
  ultimately have r: "''F#/Gb'' \<in> selected_note ` set display_notes \<union> set GUITAR_TUNING"
    by (metis UnI1 imageI)
  have m: "''Locrian'' \<in> fst ` set MODES"
    by (simp add: MODES_def)
  from catalog_inputs_never_fail [OF r m, of 14] r m show ?thesis by blast
qed

end
